theory Spec2Isabelle
  imports Main "HOL-Library.Multiset"
begin

section \<open>Characters and strings as the script's operators see them\<close>

text \<open>
  The script under \<^verbatim>\<open>src/README.md\<close> is Windows PowerShell (\<^verbatim>\<open>#Requires -Version 5.1\<close>).
  Strings are modelled as \<^typ>\<open>string\<close> over the ASCII range: the white space of
  \<^verbatim>\<open>\s\<close>, \<^verbatim>\<open>Trim()\<close> and \<^verbatim>\<open>IsNullOrWhiteSpace\<close> is TAB, LF, VT, FF, CR and SPACE, the
  digits of \<^verbatim>\<open>\d\<close> are 0 to 9, and case folding (PowerShell's operators and member
  names ignore case) maps A to Z onto a to z.
\<close>

definition is_whitespace :: "char \<Rightarrow> bool" where
  "is_whitespace c = (c \<in> set [CHR 0x09, CHR 0x0A, CHR 0x0B, CHR 0x0C, CHR 0x0D, CHR '' ''])"

definition digit_value :: "char \<Rightarrow> int option" where
  "digit_value c = map_of (zip ''0123456789'' [0, 1, 2, 3, 4, 5, 6, 7, 8, 9]) c"

definition is_digit :: "char \<Rightarrow> bool" where
  "is_digit c = (digit_value c \<noteq> None)"

definition to_lower :: "char \<Rightarrow> char" where
  "to_lower c =
     (case map_of (zip ''ABCDEFGHIJKLMNOPQRSTUVWXYZ'' ''abcdefghijklmnopqrstuvwxyz'') c of
        Some l \<Rightarrow> l
      | None \<Rightarrow> c)"

definition ci_eq :: "string \<Rightarrow> string \<Rightarrow> bool" where
  \<comment> \<open>equality of two names up to case\<close>
  "ci_eq a b = (map to_lower a = map to_lower b)"

definition IsNullOrWhiteSpace :: "string \<Rightarrow> bool" where
  \<comment> \<open>\<^verbatim>\<open>[string]::IsNullOrWhiteSpace\<close>; \<^verbatim>\<open>$null\<close> is passed as the empty string\<close>
  "IsNullOrWhiteSpace s = list_all is_whitespace s"

definition Trim :: "string \<Rightarrow> string" where
  \<comment> \<open>\<^verbatim>\<open>.Trim()\<close>\<close>
  "Trim s = rev (dropWhile is_whitespace (rev (dropWhile is_whitespace s)))"

section \<open>JSON values, note objects and the collection\<close>

text \<open>
  What \<^verbatim>\<open>ConvertFrom-Json\<close> yields. Numbers are integers, those the cmdlet reads exactly
  (a note's \<^verbatim>\<open>id\<close> and \<^verbatim>\<open>order\<close>); fractional numbers are not represented. A JSON object
  becomes a \<^verbatim>\<open>PSCustomObject\<close>: its note properties in order, as an association list.
  The collection \<^verbatim>\<open>$allNotes\<close> is a list of JSON values: a loaded file or a generated
  payload may hold elements that are no objects.
\<close>

datatype json =
    JNull
  | JBool bool
  | JNum int
  | JStr string
  | JArr "json list"
  | JObj "(string \<times> json) list"

type_synonym psobject = "(string \<times> json) list"

definition get_member :: "string \<Rightarrow> psobject \<Rightarrow> json" where
  \<comment> \<open>\<^verbatim>\<open>$obj.name\<close>: member access ignores case; a missing member reads as \<^verbatim>\<open>$null\<close>\<close>
  "get_member name obj =
     (case find (\<lambda>kv. ci_eq (fst kv) name) obj of
        None \<Rightarrow> JNull
      | Some kv \<Rightarrow> snd kv)"

definition property :: "string \<Rightarrow> json \<Rightarrow> json" where
  \<comment> \<open>\<^verbatim>\<open>$_.name\<close> on an element of the collection. A string, number, boolean or \<^verbatim>\<open>$null\<close>
      has no such property. A nested array has none either for \<^verbatim>\<open>Measure-Object\<close>, which
      leaves it out whatever the filter said.\<close>
  "property name e = (case e of JObj fields \<Rightarrow> get_member name fields | _ \<Rightarrow> JNull)"

section \<open>The next identifier (lines 197 to 203)\<close>

text \<open>
  \<^verbatim>\<open>Measure-Object\<close> compares its values as doubles and its \<^verbatim>\<open>Maximum\<close> is a double, so
  \<^verbatim>\<open>Maximum + 1\<close> and, later, \<^verbatim>\<open>$nextId++\<close> are double arithmetic (an \<^verbatim>\<open>Int32\<close> counter is
  promoted when it overflows). An integer up to \<open>2 ^ 53\<close> in magnitude is a double; a
  larger one is rounded to the nearest integer with 53 significant bits, a tie going to
  the even one. Magnitudes beyond the range of a double are not represented.
\<close>

function double_exponent :: "int \<Rightarrow> nat" where
  \<comment> \<open>how many low bits a magnitude loses to fit 53 significant bits\<close>
  "double_exponent a = (if a < 2 ^ 53 then 0 else Suc (double_exponent (a div 2)))"
  by pat_completeness auto
termination by (relation "measure nat") auto

declare double_exponent.simps [simp del]

definition round_double :: "int \<Rightarrow> int" where
  "round_double i =
     (if \<bar>i\<bar> \<le> 2 ^ 53 then i
      else
           (let a = \<bar>i\<bar>;
                e = double_exponent a;
                q = a div 2 ^ e;
                r = a mod 2 ^ e;
                h = 2 ^ (e - 1);
                q' = (if h < r \<or> (r = h \<and> odd q) then q + 1 else q)
            in sgn i * (q' * 2 ^ e)))"

text \<open>
  \<^verbatim>\<open>$_.id -match '^\d+$'\<close> converts the left operand to a string and matches it. A
  non-negative integer prints as digits only, a negative one starts with a minus sign.
  In a .NET regular expression \<^verbatim>\<open>$\<close> also matches before one final line feed.
  \<^verbatim>\<open>$null\<close>, booleans and objects never print as digits; an array-valued \<^verbatim>\<open>id\<close> cannot
  be converted by \<^verbatim>\<open>Measure-Object\<close> and is left out here as well.
\<close>

definition match_digits :: "string \<Rightarrow> bool" where
  \<comment> \<open>the regular expression \<^verbatim>\<open>^\d+$\<close>\<close>
  "match_digits s =
     (let body = (if s \<noteq> [] \<and> last s = CHR 0x0A then butlast s else s)
      in body \<noteq> [] \<and> list_all is_digit body)"

definition id_match :: "json \<Rightarrow> bool" where
  \<comment> \<open>\<^verbatim>\<open>$_.id -match '^\d+$'\<close>\<close>
  "id_match v =
     (case v of
        JNum n \<Rightarrow> 0 \<le> n
      | JStr s \<Rightarrow> match_digits s
      | _ \<Rightarrow> False)"

definition decimal :: "string \<Rightarrow> int" where
  \<comment> \<open>the number a string of digits denotes; a character that is no digit counts 0\<close>
  "decimal s = foldl (\<lambda>a c. 10 * a + (case digit_value c of Some d \<Rightarrow> d | None \<Rightarrow> 0)) 0 s"

definition to_number :: "json \<Rightarrow> int option" where
  \<comment> \<open>the conversion to a double that \<^verbatim>\<open>Measure-Object\<close> applies, on the values that pass
      the filter: a number, or a digit string (trailing white space ignored), rounded to
      a double; a value it cannot convert is skipped (\<open>None\<close>)\<close>
  "to_number v =
     (case v of
        JNum n \<Rightarrow> Some (round_double n)
      | JStr s \<Rightarrow>
          (if match_digits s then Some (round_double (decimal (filter is_digit s))) else None)
      | _ \<Rightarrow> None)"

definition Measure_Maximum :: "json list \<Rightarrow> int option" where
  \<comment> \<open>\<^verbatim>\<open>(... | Measure-Object -Property id -Maximum).Maximum\<close>: the running maximum over
      the records; no record, no maximum (\<^verbatim>\<open>$null\<close>)\<close>
  "Measure_Maximum vs =
     foldl (\<lambda>acc v. case to_number v of
                        None \<Rightarrow> acc
                      | Some n \<Rightarrow> (case acc of None \<Rightarrow> Some n | Some m \<Rightarrow> Some (max m n)))
           None vs"

definition compute_nextId :: "json list \<Rightarrow> int" where
  \<comment> \<open>\<^verbatim>\<open>$null + 1\<close> is 1. No step of the \<^verbatim>\<open>try\<close> block throws in this model, so the
      \<^verbatim>\<open>catch { 1 }\<close> branch has no case of its own.\<close>
  "compute_nextId allNotes =
     (if length allNotes > 0 then
        (case Measure_Maximum
                (map (property ''id'') (filter (\<lambda>n. id_match (property ''id'' n)) allNotes)) of
           None \<Rightarrow> 0 + 1
         | Some m \<Rightarrow> round_double (m + 1))
      else 1)"

section \<open>The classification gate (lines 271 to 291)\<close>

text \<open>
  What \<^verbatim>\<open>Invoke-GeminiApi\<close> gives back for one request: it throws (the error reaches the
  \<^verbatim>\<open>catch\<close> of the file's \<^verbatim>\<open>try\<close>), it returns \<^verbatim>\<open>$null\<close>, or it returns a response.
  \<open>ApiText t\<close> is a response whose \<^verbatim>\<open>candidates[0].content.parts[0].text\<close> is \<open>t\<close>;
  \<open>None\<close> there stands for a response in which one link of that chain is missing.
\<close>

datatype api_result = ApiThrows | ApiNull | ApiText "string option"

definition extract_text :: "api_result \<Rightarrow> string option" where
  \<comment> \<open>lines 272 to 281 (and 341 to 350): \<^verbatim>\<open>$null\<close> unless the text is there, else \<^verbatim>\<open>$part.text.Trim()\<close>\<close>
  "extract_text r = (case r of ApiText (Some t) \<Rightarrow> Some (Trim t) | _ \<Rightarrow> None)"

fun wildcard_match :: "string \<Rightarrow> string \<Rightarrow> bool" where
  \<comment> \<open>\<^verbatim>\<open>subject -like pattern\<close>, for a pattern of literal characters, \<^verbatim>\<open>?\<close> and \<^verbatim>\<open>*\<close>;
      the comparison ignores case\<close>
  "wildcard_match [] s = (s = [])"
| "wildcard_match (p # ps) [] = (p = CHR ''*'' \<and> wildcard_match ps [])"
| "wildcard_match (p # ps) (c # cs) =
     (if p = CHR ''*'' then wildcard_match ps (c # cs) \<or> wildcard_match (p # ps) cs
      else if p = CHR ''?'' then wildcard_match ps cs
      else to_lower p = to_lower c \<and> wildcard_match ps cs)"

definition Classification_Gate :: "string option \<Rightarrow> bool" where
  \<comment> \<open>line 291, \<^verbatim>\<open>$classificationResult -like 'Yes*'\<close>; \<^verbatim>\<open>$null -like 'Yes*'\<close> is false\<close>
  "Classification_Gate classificationResult =
     (case classificationResult of
        None \<Rightarrow> False
      | Some s \<Rightarrow> wildcard_match ''Yes*'' s)"

section \<open>Cleaning the generated payload (line 360)\<close>

text \<open>
  \<^verbatim>\<open>-replace\<close> ignores case. The first expression is anchored at the start of the string:
  white space, the seven characters of the opening fence with its \<^verbatim>\<open>json\<close> tag, white
  space. The second is anchored at the end: its leftmost match starts at the white space
  before the last three backticks, and these must be followed by white space only.
\<close>

definition fence :: string where
  "fence = replicate 3 (CHR 0x60)"

definition strip_leading_fence :: "string \<Rightarrow> string" where
  \<comment> \<open>\<^verbatim>\<open>-replace '^\s*```json\s*', ''\<close>\<close>
  "strip_leading_fence s =
     (let t = dropWhile is_whitespace s
      in if ci_eq (take 7 t) (fence @ ''json'') then dropWhile is_whitespace (drop 7 t) else s)"

definition strip_trailing_fence :: "string \<Rightarrow> string" where
  \<comment> \<open>\<^verbatim>\<open>-replace '\s*```\s*$', ''\<close>\<close>
  "strip_trailing_fence s =
     (let t = dropWhile is_whitespace (rev s)
      in if take 3 t = fence then rev (dropWhile is_whitespace (drop 3 t)) else s)"

definition clean_fences :: "string \<Rightarrow> string" where
  "clean_fences s = strip_trailing_fence (strip_leading_fence s)"

section \<open>Members of a note object\<close>

text \<open>
  \<^verbatim>\<open>$jsonObject.PSObject.Properties.Name.Contains('x')\<close> asks whether the array of
  property names has the element \<^verbatim>\<open>'x'\<close>, an exact comparison that respects case. It is
  only evaluated after \<^verbatim>\<open>id\<close> and \<^verbatim>\<open>createdAt\<close> were stamped, so the names are an array
  of at least two elements. The members of an object, in contrast, are found ignoring
  case: \<^verbatim>\<open>Add-Member\<close> refuses a name the object already has in any letter case
  (reporting an error and going on), and with \<^verbatim>\<open>-Force\<close> removes that member and adds
  the new one at the end.
\<close>

definition Contains :: "string \<Rightarrow> psobject \<Rightarrow> bool" where
  "Contains name obj = (name \<in> set (map fst obj))"

definition has_member :: "string \<Rightarrow> psobject \<Rightarrow> bool" where
  "has_member name obj = (find (\<lambda>kv. ci_eq (fst kv) name) obj \<noteq> None)"

definition Add_Member :: "string \<Rightarrow> json \<Rightarrow> psobject \<Rightarrow> psobject" where
  "Add_Member name v obj = (if has_member name obj then obj else obj @ [(name, v)])"

definition Add_Member_Force :: "string \<Rightarrow> json \<Rightarrow> psobject \<Rightarrow> psobject" where
  "Add_Member_Force name v obj = filter (\<lambda>kv. \<not> ci_eq (fst kv) name) obj @ [(name, v)]"

section \<open>The fallback title (lines 376 to 390)\<close>

definition replace_separators :: "string \<Rightarrow> string" where
  \<comment> \<open>\<^verbatim>\<open>-replace '[-_]', ' '\<close>\<close>
  "replace_separators s = map (\<lambda>c. if c = CHR ''-'' \<or> c = CHR ''_'' then CHR '' '' else c) s"

fun split_from :: "bool \<Rightarrow> string \<Rightarrow> string list" where
  \<comment> \<open>the flag says that the character before was white space, part of a delimiter
      already counted\<close>
  "split_from in_ws [] = [[]]"
| "split_from in_ws (c # cs) =
     (if is_whitespace c then (if in_ws then split_from True cs else [] # split_from True cs)
      else (case split_from False cs of
              [] \<Rightarrow> [[c]]
            | w # ws \<Rightarrow> (c # w) # ws))"

definition split_ws :: "string \<Rightarrow> string list" where
  \<comment> \<open>\<^verbatim>\<open>-split '\s+'\<close>: the pieces between the maximal runs of white space; a text that
      starts (ends) with white space has an empty first (last) piece\<close>
  "split_ws s = split_from False s"

fun join :: "string \<Rightarrow> string list \<Rightarrow> string" where
  \<comment> \<open>\<^verbatim>\<open>-join\<close>\<close>
  "join sep [] = []"
| "join sep [x] = x"
| "join sep (x # y # ys) = x @ sep @ join sep (y # ys)"

fun digits_of :: "nat \<Rightarrow> string" where
  "digits_of n =
     (if n < 10 then [''0123456789'' ! n] else digits_of (n div 10) @ [''0123456789'' ! (n mod 10)])"

declare digits_of.simps [simp del]

definition string_of_int :: "int \<Rightarrow> string" where
  "string_of_int i = (if i < 0 then CHR ''-'' # digits_of (nat (- i)) else digits_of (nat i))"

definition fallbackTitle :: "string \<Rightarrow> string \<Rightarrow> int \<Rightarrow> string" where
  "fallbackTitle baseName content idv =
     (let t1 = replace_separators baseName
      in if IsNullOrWhiteSpace t1 then
           (let t2 = join '' '' (take 5 (split_ws content))
            in if IsNullOrWhiteSpace t2 then ''Note '' @ string_of_int idv else t2)
         else t1)"

fun blank_value :: "json \<Rightarrow> bool" where
  \<comment> \<open>\<^verbatim>\<open>[string]::IsNullOrWhiteSpace($jsonObject.title)\<close>: the value is converted to a
      string first (\<^verbatim>\<open>$null\<close> to the empty string, an array to its elements joined by
      spaces, an object with no property to the empty string)\<close>
  "blank_value JNull = True"
| "blank_value (JBool b) = False"
| "blank_value (JNum n) = False"
| "blank_value (JStr s) = IsNullOrWhiteSpace s"
| "blank_value (JArr vs) = list_all blank_value vs"
| "blank_value (JObj fields) = (fields = [])"

section \<open>The schema normalizer (lines 371 to 406)\<close>

text \<open>
  The five blocks of the normalizer, in the order of the source. The three default
  blocks (status, priority, isPrivate) have one shape.
\<close>

definition ensure_text :: "string \<Rightarrow> psobject \<Rightarrow> psobject" where
  \<comment> \<open>lines 371 to 374; this \<^verbatim>\<open>Add-Member\<close> has no \<^verbatim>\<open>-Force\<close>\<close>
  "ensure_text content jsonObject =
     (if \<not> Contains ''text'' jsonObject
      then Add_Member ''text'' (JStr content) jsonObject else jsonObject)"

definition ensure_title :: "string \<Rightarrow> string \<Rightarrow> int \<Rightarrow> psobject \<Rightarrow> psobject" where
  \<comment> \<open>lines 377 to 390\<close>
  "ensure_title baseName content idv jsonObject =
     (if \<not> Contains ''title'' jsonObject \<or> blank_value (get_member ''title'' jsonObject)
      then Add_Member_Force ''title'' (JStr (fallbackTitle baseName content idv)) jsonObject
      else jsonObject)"

definition ensure_default :: "string \<Rightarrow> json \<Rightarrow> psobject \<Rightarrow> psobject" where
  \<comment> \<open>lines 394 to 397, 398 to 401 and 402 to 406\<close>
  "ensure_default name v jsonObject =
     (if \<not> Contains name jsonObject then Add_Member_Force name v jsonObject else jsonObject)"

definition Schema_Normalizer :: "string \<Rightarrow> string \<Rightarrow> int \<Rightarrow> psobject \<Rightarrow> psobject" where
  "Schema_Normalizer baseName content idv jsonObject =
     ensure_default ''isPrivate'' (JBool False)
       (ensure_default ''priority'' (JStr ''Medium'')
          (ensure_default ''status'' (JStr ''Open'')
             (ensure_title baseName content idv
                (ensure_text content jsonObject))))"

section \<open>The ingestion loop (lines 227 to 448)\<close>

text \<open>
  One input item: the file with what \<^verbatim>\<open>Get-Content\<close> reads from it (\<open>None\<close> when the
  read throws; an empty file reads as the empty string), and what the service answers
  to the two requests made for it.
\<close>

record txt_file =
  fileName :: string
  fileBaseName :: string
  fileContent :: "string option"
  fileDate :: string
  response1 :: api_result
  response2 :: api_result

text \<open>
  The variables the loop changes. \<open>apiCalls\<close> is not a variable of the script: it counts
  the calls of \<^verbatim>\<open>Invoke-GeminiApi\<close>.
\<close>

record pipeline_state =
  allNotes :: "json list"
  nextId :: int
  currentOrder :: int
  processedCount :: nat
  addedCount :: nat
  apiCalls :: nat

definition build_note :: "txt_file \<Rightarrow> string \<Rightarrow> int \<Rightarrow> int \<Rightarrow> psobject \<Rightarrow> psobject" where
  \<comment> \<open>lines 369 to 409, for a payload that is one object\<close>
  "build_note file content idv ord jsonObject =
     Add_Member_Force ''order'' (JNum ord)
       (Schema_Normalizer (fileBaseName file) content idv
          (Add_Member_Force ''createdAt'' (JStr (fileDate file))
             (Add_Member_Force ''id'' (JNum idv) jsonObject)))"

text \<open>
  When the payload is a JSON array, \<^verbatim>\<open>$jsonObject\<close> is an array. Its own property names
  (\<^verbatim>\<open>Length\<close>, \<^verbatim>\<open>Rank\<close> and so on) contain none of the five field names, so every block of
  lines 371 to 406 runs, and each \<^verbatim>\<open>$jsonObject | Add-Member\<close> sends the elements down
  the pipeline one by one: every element that is an object gets all the fields, the
  forced ones overwriting what it had. An element that is no object keeps its value.
\<close>

definition stamp_array_element :: "txt_file \<Rightarrow> string \<Rightarrow> int \<Rightarrow> int \<Rightarrow> json \<Rightarrow> json" where
  \<comment> \<open>lines 369 to 409, for one element of a payload that is an array\<close>
  "stamp_array_element file content idv ord e =
     (case e of
        JObj props \<Rightarrow>
          JObj (Add_Member_Force ''order'' (JNum ord)
                 (Add_Member_Force ''isPrivate'' (JBool False)
                   (Add_Member_Force ''priority'' (JStr ''Medium'')
                     (Add_Member_Force ''status'' (JStr ''Open'')
                       (Add_Member_Force ''title''
                          (JStr (fallbackTitle (fileBaseName file) content idv))
                          (Add_Member ''text'' (JStr content)
                            (Add_Member_Force ''createdAt'' (JStr (fileDate file))
                              (Add_Member_Force ''id'' (JNum idv) props))))))))
      | _ \<Rightarrow> e)"

definition append_notes :: "pipeline_state \<Rightarrow> json list \<Rightarrow> pipeline_state" where
  \<comment> \<open>lines 416 to 420: \<^verbatim>\<open>$allNotes += $jsonObject\<close> appends the object, or every element
      of an array; the three counters advance once\<close>
  "append_notes st new =
     st\<lparr>allNotes := allNotes st @ new,
        addedCount := addedCount st + 1,
        nextId := round_double (nextId st + 1),
        currentOrder := round_double (currentOrder st + 1)\<rparr>"

definition store_payload :: "pipeline_state \<Rightarrow> txt_file \<Rightarrow> string \<Rightarrow> json \<Rightarrow> pipeline_state" where
  \<comment> \<open>lines 366 to 431, by the kind of value the payload parsed to. A string has the one
      property \<^verbatim>\<open>Length\<close>, so all blocks run on it; \<^verbatim>\<open>Add-Member\<close> attaches the fields to
      the string's wrapper, which is not represented: the entry stands as the string. A number, a boolean
      and \<^verbatim>\<open>$null\<close> have no property: \<^verbatim>\<open>.Contains\<close> is called on \<^verbatim>\<open>$null\<close>, which throws
      into the \<^verbatim>\<open>catch\<close> of line 427.\<close>
  "store_payload st file content v =
     (case v of
        JObj props \<Rightarrow>
          append_notes st [JObj (build_note file content (nextId st) (currentOrder st) props)]
      | JArr elements \<Rightarrow>
          append_notes st
            (map (stamp_array_element file content (nextId st) (currentOrder st)) elements)
      | JStr s \<Rightarrow> append_notes st [JStr s]
      | _ \<Rightarrow> st)"

text \<open>
  \<^verbatim>\<open>ConvertFrom-Json\<close> is a cmdlet of the platform, a parameter here: \<open>None\<close> where it
  throws, otherwise the JSON value the text denotes (in Windows PowerShell 5.1 an array
  comes back as one array, also when it has no or one element).
\<close>

definition generate_note ::
  "(string \<Rightarrow> json option) \<Rightarrow> pipeline_state \<Rightarrow> txt_file \<Rightarrow> string \<Rightarrow> pipeline_state" where
  \<comment> \<open>lines 292 to 434\<close>
  "generate_note ConvertFrom_Json st file content =
     (let st2 = st\<lparr>apiCalls := apiCalls st + 1\<rparr>
      in if response2 file = ApiThrows then st2
         else
           (let generatedJsonString = extract_text (response2 file)
            in if response2 file = ApiNull \<and> generatedJsonString = None then st2
               else
                 (case generatedJsonString of
                    None \<Rightarrow> st2
                  | Some g \<Rightarrow>
                      if IsNullOrWhiteSpace g then st2
                      else
                        (case ConvertFrom_Json (clean_fences g) of
                           None \<Rightarrow> st2
                         | Some jsonObject \<Rightarrow> store_payload st2 file content jsonObject))))"

definition process_file ::
  "(string \<Rightarrow> json option) \<Rightarrow> pipeline_state \<Rightarrow> txt_file \<Rightarrow> pipeline_state" where
  \<comment> \<open>the body of the \<^verbatim>\<open>foreach\<close>, lines 228 to 444\<close>
  "process_file ConvertFrom_Json st0 file =
     (let st = st0\<lparr>processedCount := processedCount st0 + 1\<rparr>
      in case fileContent file of
           None \<Rightarrow> st
         | Some content \<Rightarrow>
             if IsNullOrWhiteSpace content then st
             else
               (let st1 = st\<lparr>apiCalls := apiCalls st + 1\<rparr>
                in if response1 file = ApiThrows then st1
                   else
                     (let classificationResult = extract_text (response1 file)
                      in if response1 file = ApiNull \<and> classificationResult = None then st1
                         else if Classification_Gate classificationResult
                              then generate_note ConvertFrom_Json st1 file content
                              else st1)))"

definition initial_state :: "json list \<Rightarrow> pipeline_state" where
  \<comment> \<open>lines 197 to 225; the argument is the collection the load block (lines 166 to
      195) leaves in \<^verbatim>\<open>$allNotes\<close>\<close>
  "initial_state loaded =
     \<lparr>allNotes = loaded, nextId = compute_nextId loaded, currentOrder = 0,
      processedCount = 0, addedCount = 0, apiCalls = 0\<rparr>"

definition process_all ::
  "(string \<Rightarrow> json option) \<Rightarrow> pipeline_state \<Rightarrow> txt_file list \<Rightarrow> pipeline_state" where
  \<comment> \<open>the \<^verbatim>\<open>foreach\<close> loop\<close>
  "process_all ConvertFrom_Json st txtFiles = foldl (process_file ConvertFrom_Json) st txtFiles"

section \<open>Saving the collection (lines 450 to 469)\<close>









section \<open>The notions of the specification\<close>


fun digits_value :: "string \<Rightarrow> int" where
  "digits_value [] = 0"
| "digits_value (c # cs) = (int (of_char c) - 48) * 10 ^ length cs + digits_value cs"








text \<open>
  An accepted input whose payload is absent or unparsable: no text came back, or it is
  blank, or \<^verbatim>\<open>ConvertFrom-Json\<close> throws on the cleaned text. And an input whose payload,
  where it parses, is a JSON object.
\<close>

definition payload_unusable :: "(string \<Rightarrow> json option) \<Rightarrow> txt_file \<Rightarrow> bool" where
  "payload_unusable ConvertFrom_Json file =
     (case extract_text (response2 file) of
        None \<Rightarrow> True
      | Some g \<Rightarrow> IsNullOrWhiteSpace g \<or> ConvertFrom_Json (clean_fences g) = None)"

definition object_payload :: "(string \<Rightarrow> json option) \<Rightarrow> txt_file \<Rightarrow> bool" where
  "object_payload ConvertFrom_Json file =
     (case extract_text (response2 file) of
        None \<Rightarrow> True
      | Some g \<Rightarrow>
          (case ConvertFrom_Json (clean_fences g) of
             None \<Rightarrow> True
           | Some (JObj props) \<Rightarrow> True
           | Some v \<Rightarrow> False))"

text \<open>The notes a run adds: what stands in the collection after the loaded ones.\<close>

definition new_notes ::
  "(string \<Rightarrow> json option) \<Rightarrow> json list \<Rightarrow> txt_file list \<Rightarrow> json list" where
  "new_notes ConvertFrom_Json loaded txtFiles =
     drop (length loaded) (allNotes (process_all ConvertFrom_Json (initial_state loaded) txtFiles))"

text \<open>
  For the normalizer: a field name that differs from one of the four names the
  normalizer forces only in the case of its letters, and a complete note, which carries
  the six required fields under exactly their names, the title not blank.
\<close>

definition case_variant :: "string \<Rightarrow> bool" where
  "case_variant k =
     (\<exists>n \<in> set [''title'', ''status'', ''priority'', ''isPrivate'']. ci_eq k n \<and> k \<noteq> n)"

definition complete_note :: "psobject \<Rightarrow> bool" where
  "complete_note obj =
     (Contains ''id'' obj \<and> Contains ''title'' obj \<and>
      \<not> blank_value (get_member ''title'' obj) \<and>
      Contains ''text'' obj \<and> Contains ''status'' obj \<and> Contains ''priority'' obj \<and>
      Contains ''isPrivate'' obj)"

text \<open>
  A valid note: every required field is there (found as PowerShell finds members) and
  the title is not blank.
\<close>

definition populated :: "psobject \<Rightarrow> bool" where
  "populated n =
     (has_member ''id'' n \<and> has_member ''title'' n \<and> \<not> blank_value (get_member ''title'' n) \<and>
      has_member ''text'' n \<and> has_member ''status'' n \<and> has_member ''priority'' n \<and>
      has_member ''isPrivate'' n \<and> has_member ''createdAt'' n \<and> has_member ''order'' n)"

section \<open>Properties\<close>

subsection \<open>Auxiliary facts\<close>

lemma round_double_exact: "\<bar>i\<bar> \<le> 2 ^ 53 \<Longrightarrow> round_double i = i"
  by (simp add: round_double_def)

lemma round_double_nonneg: "0 \<le> i \<Longrightarrow> 0 \<le> round_double i"
  unfolding round_double_def Let_def by (simp add: sgn_if pos_imp_zdiv_nonneg_iff)

lemma digit_value_of_char: "digit_value c = Some d \<Longrightarrow> d = int (of_char c) - 48"
  by (auto simp: digit_value_def split: if_splits)


lemma foldl_decimal:
  "list_all is_digit s \<Longrightarrow>
   foldl (\<lambda>a c. 10 * a + (case digit_value c of Some d \<Rightarrow> d | None \<Rightarrow> 0)) a s
   = a * 10 ^ length s + digits_value s"
proof (induction s arbitrary: a)
  case Nil
  then show ?case by simp
next
  case (Cons c s)
  from Cons.prems obtain d where d: "digit_value c = Some d" by (auto simp: is_digit_def)
  then have "d = int (of_char c) - 48" by (rule digit_value_of_char)
  with Cons d show ?case by (simp add: algebra_simps)
qed

lemma decimal_digits_value: "list_all is_digit s \<Longrightarrow> decimal s = digits_value s"
  by (simp add: decimal_def foldl_decimal)

lemma digits_value_nonneg: "list_all is_digit s \<Longrightarrow> 0 \<le> digits_value s"
proof (induction s)
  case Nil then show ?case by simp
next
  case (Cons c s)
  from Cons.prems obtain d where d: "digit_value c = Some d" by (auto simp: is_digit_def)
  then have "d = int (of_char c) - 48" by (rule digit_value_of_char)
  moreover have "0 \<le> d" using d by (auto simp: digit_value_def split: if_splits)
  ultimately show ?case using Cons by simp
qed

lemma foldl_measure:
  "foldl (\<lambda>acc v. case to_number v of None \<Rightarrow> acc
                      | Some n \<Rightarrow> (case acc of None \<Rightarrow> Some n | Some m \<Rightarrow> Some (max m n))) acc vs =
   (case acc of
      None \<Rightarrow> (if List.map_filter to_number vs = [] then None
               else Some (Max (set (List.map_filter to_number vs))))
    | Some m \<Rightarrow> Some (Max (set (m # List.map_filter to_number vs))))"
proof (induction vs arbitrary: acc)
  case Nil
  then show ?case by (simp split: option.splits)
next
  case (Cons v vs)
  show ?case
  proof (cases "to_number v")
    case None
    then show ?thesis using Cons.IH [of acc] by (cases acc) simp_all
  next
    case (Some n)
    show ?thesis
    proof (cases acc)
      case None
      then show ?thesis using Some Cons.IH [of "Some n"] by simp
    next
      case (Some m)
      have "Max (insert (max m n) (set (List.map_filter to_number vs))) =
            Max (insert m (insert n (set (List.map_filter to_number vs))))"
        by (cases "List.map_filter to_number vs = []") (simp_all add: max.assoc)
      then show ?thesis using \<open>to_number v = Some n\<close> Some Cons.IH [of "Some (max m n)"]
        by simp
    qed
  qed
qed

lemma Measure_Maximum_eq:
  "Measure_Maximum vs =
     (if List.map_filter to_number vs = [] then None
      else Some (Max (set (List.map_filter to_number vs))))"
  unfolding Measure_Maximum_def by (simp add: foldl_measure)







lemma double_exponent_le: "1 \<le> a \<Longrightarrow> 2 ^ double_exponent a \<le> a"
proof (induction a rule: double_exponent.induct)
  case (1 a)
  show ?case
  proof (cases "a < 2 ^ 53")
    case True
    with 1 show ?thesis by (simp add: double_exponent.simps)
  next
    case False
    then have "1 \<le> a div 2" by simp
    with 1 False have "2 ^ double_exponent (a div 2) \<le> a div 2" by simp
    then have "2 * 2 ^ double_exponent (a div 2) \<le> a" by simp
    with False show ?thesis by (simp add: double_exponent.simps [of a])
  qed
qed

lemma round_double_pos:
  assumes "1 \<le> i"
  shows "1 \<le> round_double i"
proof (cases "\<bar>i\<bar> \<le> 2 ^ 53")
  case True
  with assms show ?thesis by (simp add: round_double_def)
next
  case False
  define e where "e = double_exponent i"
  define q where "q = i div 2 ^ e"
  define q' where "q' = (if 2 ^ (e - 1) < i mod 2 ^ e \<or> (i mod 2 ^ e = 2 ^ (e - 1) \<and> odd q)
                          then q + 1 else q)"
  from assms have le: "2 ^ e \<le> i" unfolding e_def by (rule double_exponent_le)
  have p: "(1::int) \<le> 2 ^ e" by simp
  from le have "0 < q" unfolding q_def by (simp add: pos_imp_zdiv_pos_iff)
  then have "1 \<le> q'" by (simp add: q'_def)
  with p have "1 * 1 \<le> q' * 2 ^ e" by (intro mult_mono) simp_all
  moreover from False assms have "round_double i = q' * 2 ^ e"
    by (simp add: round_double_def Let_def q'_def q_def e_def)
  ultimately show ?thesis by simp
qed

lemma filtered_value_nonneg: "id_match v \<Longrightarrow> to_number v = Some n \<Longrightarrow> 0 \<le> n"
proof (cases v)
  case (JStr s)
  assume "id_match v" "to_number v = Some n"
  with JStr have n: "n = round_double (decimal (filter is_digit s))"
    by (simp add: id_match_def to_number_def)
  have "list_all is_digit (filter is_digit s)" by (simp add: list_all_iff)
  then have "0 \<le> decimal (filter is_digit s)"
    by (simp add: decimal_digits_value digits_value_nonneg)
  with n show ?thesis by (simp add: round_double_nonneg)
qed (auto simp: id_match_def to_number_def round_double_nonneg)

lemma nextId_pos: "1 \<le> compute_nextId xs"
proof (cases "Measure_Maximum
                (map (property ''id'') (filter (\<lambda>n. id_match (property ''id'' n)) xs))")
  case None
  then show ?thesis by (simp add: compute_nextId_def)
next
  case (Some m)
  let ?vs = "map (property ''id'') (filter (\<lambda>n. id_match (property ''id'' n)) xs)"
  from Some have ne: "List.map_filter to_number ?vs \<noteq> []"
    and m: "m = Max (set (List.map_filter to_number ?vs))"
    by (simp_all add: Measure_Maximum_eq split: if_splits)
  from ne have "m \<in> set (List.map_filter to_number ?vs)" unfolding m by (intro Max_in) simp_all
  then obtain x where v: "id_match (property ''id'' x)" and t: "to_number (property ''id'' x) = Some m"
    by (auto simp: map_filter_def)
  from filtered_value_nonneg [OF v t] have "1 \<le> m + 1" by simp
  then have "1 \<le> round_double (m + 1)" by (rule round_double_pos)
  with Some show ?thesis by (simp add: compute_nextId_def)
qed


lemma Trim_empty:
  assumes "Trim s = []"
  shows "IsNullOrWhiteSpace s"
proof -
  from assms have a: "\<forall>x\<in>set (dropWhile is_whitespace s). is_whitespace x"
    by (simp add: Trim_def dropWhile_eq_Nil_conv)
  have "dropWhile is_whitespace s = []"
  proof (rule ccontr)
    assume n: "dropWhile is_whitespace s \<noteq> []"
    then have "\<not> is_whitespace (hd (dropWhile is_whitespace s))" by (rule hd_dropWhile)
    moreover have "hd (dropWhile is_whitespace s) \<in> set (dropWhile is_whitespace s)"
      using n by simp
    ultimately show False using a by blast
  qed
  then show ?thesis by (simp add: IsNullOrWhiteSpace_def dropWhile_eq_Nil_conv list_all_iff)
qed

lemma blank_Trim:
  assumes "IsNullOrWhiteSpace s"
  shows "Trim s = []"
  using assms
  by (auto simp: Trim_def IsNullOrWhiteSpace_def list_all_iff dest: set_dropWhileD)

lemma generate_unusable:
  "payload_unusable P file \<Longrightarrow>
   generate_note P st file content = st\<lparr>apiCalls := apiCalls st + 1\<rparr>"
  by (auto simp: payload_unusable_def generate_note_def Let_def split: option.splits)

lemma find_filter_keep:
  "(\<And>x. P x \<Longrightarrow> Q x) \<Longrightarrow> find P (filter Q xs) = find P xs"
  by (induction xs) auto

lemma find_filter_none:
  "(\<And>x. P x \<Longrightarrow> \<not> Q x) \<Longrightarrow> find P (filter Q xs) = None"
  by (induction xs) auto

lemma find_append:
  "find P (xs @ ys) = (case find P xs of None \<Rightarrow> find P ys | Some x \<Rightarrow> Some x)"
  by (induction xs) auto

lemma get_member_Add_Member_Force:
  "get_member n (Add_Member_Force m v obj) = (if ci_eq m n then v else get_member n obj)"
proof (cases "ci_eq m n")
  case True
  have "find (\<lambda>kv. ci_eq (fst kv) n) (filter (\<lambda>kv. \<not> ci_eq (fst kv) m) obj) = None"
    using True by (intro find_filter_none) (auto simp: ci_eq_def)
  then show ?thesis using True
    by (simp add: get_member_def Add_Member_Force_def find_append)
next
  case False
  have "find (\<lambda>kv. ci_eq (fst kv) n) (filter (\<lambda>kv. \<not> ci_eq (fst kv) m) obj)
        = find (\<lambda>kv. ci_eq (fst kv) n) obj"
    using False by (intro find_filter_keep) (auto simp: ci_eq_def)
  then show ?thesis using False
    by (simp add: get_member_def Add_Member_Force_def find_append split: option.splits)
qed

lemma get_member_Add_Member:
  "\<not> ci_eq m n \<Longrightarrow> get_member n (Add_Member m v obj) = get_member n obj"
  by (simp add: get_member_def Add_Member_def find_append split: option.splits)

lemma ci_id:
  "\<not> ci_eq ''text'' ''id''" "\<not> ci_eq ''title'' ''id''" "\<not> ci_eq ''status'' ''id''"
  "\<not> ci_eq ''priority'' ''id''" "\<not> ci_eq ''isPrivate'' ''id''" "\<not> ci_eq ''createdAt'' ''id''"
  "\<not> ci_eq ''order'' ''id''" "ci_eq ''id'' ''id''" "ci_eq ''order'' ''order''"
  by (simp_all add: ci_eq_def)

lemma get_member_Schema_Normalizer:
  assumes "\<not> ci_eq ''text'' n" "\<not> ci_eq ''title'' n" "\<not> ci_eq ''status'' n"
    "\<not> ci_eq ''priority'' n" "\<not> ci_eq ''isPrivate'' n"
  shows "get_member n (Schema_Normalizer b c i obj) = get_member n obj"
  using assms
  by (simp add: Schema_Normalizer_def ensure_default_def ensure_title_def ensure_text_def
      get_member_Add_Member_Force get_member_Add_Member)

lemma build_note_id: "get_member ''id'' (build_note f c i k obj) = JNum i"
  by (simp add: build_note_def get_member_Add_Member_Force get_member_Schema_Normalizer ci_id)

lemma build_note_order: "get_member ''order'' (build_note f c i k obj) = JNum k"
  by (simp add: build_note_def get_member_Add_Member_Force ci_id)


lemma property_object: "property n (JObj obj) = get_member n obj"
  by (simp add: property_def)

lemma generate_note_cases:
  assumes "object_payload P f"
  shows "(allNotes (generate_note P st f c) = allNotes st \<and>
    nextId (generate_note P st f c) = nextId st \<and>
    currentOrder (generate_note P st f c) = currentOrder st) \<or>
   (\<exists>obj. allNotes (generate_note P st f c) =
            allNotes st @ [JObj (build_note f c (nextId st) (currentOrder st) obj)] \<and>
      nextId (generate_note P st f c) = round_double (nextId st + 1) \<and>
      currentOrder (generate_note P st f c) = round_double (currentOrder st + 1))"
  using assms
  by (auto simp: generate_note_def object_payload_def store_payload_def append_notes_def Let_def
      split: option.splits json.splits)

lemma process_file_cases:
  assumes "object_payload P f"
  shows "(allNotes (process_file P st f) = allNotes st \<and>
    nextId (process_file P st f) = nextId st \<and>
    currentOrder (process_file P st f) = currentOrder st) \<or>
   (\<exists>obj c. allNotes (process_file P st f) =
              allNotes st @ [JObj (build_note f c (nextId st) (currentOrder st) obj)] \<and>
      nextId (process_file P st f) = round_double (nextId st + 1) \<and>
      currentOrder (process_file P st f) = round_double (currentOrder st + 1))"
proof -
  let ?st1 = "st\<lparr>processedCount := processedCount st + 1, apiCalls := apiCalls st + 1\<rparr>"
  show ?thesis
    using generate_note_cases [OF assms, of ?st1]
    by (auto simp: process_file_def Let_def split: option.splits)
qed

lemma process_all_stamps:
  assumes "list_all (object_payload P) files"
    and "0 \<le> nextId st" and "nextId st + int (length files) \<le> 2 ^ 53"
    and "0 \<le> currentOrder st" and "currentOrder st + int (length files) \<le> 2 ^ 53"
  shows "\<exists>new. allNotes (process_all P st files) = allNotes st @ new \<and>
     nextId (process_all P st files) = nextId st + int (length new) \<and>
     currentOrder (process_all P st files) = currentOrder st + int (length new) \<and>
     (\<forall>k<length new. property ''id'' (new ! k) = JNum (nextId st + int k) \<and>
                       property ''order'' (new ! k) = JNum (currentOrder st + int k))"
  using assms
proof (induction files arbitrary: st)
  case Nil
  show ?case by (simp add: process_all_def)
next
  case (Cons f files)
  let ?s1 = "process_file P st f"
  from Cons.prems have op: "object_payload P f" and rest: "list_all (object_payload P) files"
    by simp_all
  from Cons.prems have rn: "round_double (nextId st + 1) = nextId st + 1"
    by (intro round_double_exact) simp
  from Cons.prems have ro: "round_double (currentOrder st + 1) = currentOrder st + 1"
    by (intro round_double_exact) simp
  have step: "process_all P st (f # files) = process_all P ?s1 files"
    by (simp add: process_all_def)
  from process_file_cases [OF op, of st] show ?case
  proof
    assume same: "allNotes ?s1 = allNotes st \<and> nextId ?s1 = nextId st \<and>
            currentOrder ?s1 = currentOrder st"
    with Cons.prems have "0 \<le> nextId ?s1" "nextId ?s1 + int (length files) \<le> 2 ^ 53"
      "0 \<le> currentOrder ?s1" "currentOrder ?s1 + int (length files) \<le> 2 ^ 53"
      by simp_all
    from Cons.IH [OF rest this] same step show ?thesis by simp
  next
    assume "\<exists>obj c. allNotes ?s1 =
              allNotes st @ [JObj (build_note f c (nextId st) (currentOrder st) obj)] \<and>
      nextId ?s1 = round_double (nextId st + 1) \<and>
      currentOrder ?s1 = round_double (currentOrder st + 1)"
    then obtain obj c where
      a: "allNotes ?s1 = allNotes st @ [JObj (build_note f c (nextId st) (currentOrder st) obj)]"
         "nextId ?s1 = nextId st + 1" "currentOrder ?s1 = currentOrder st + 1"
      unfolding rn ro by blast
    with Cons.prems have "0 \<le> nextId ?s1" "nextId ?s1 + int (length files) \<le> 2 ^ 53"
      "0 \<le> currentOrder ?s1" "currentOrder ?s1 + int (length files) \<le> 2 ^ 53"
      by simp_all
    from Cons.IH [OF rest this] obtain new where
      n: "allNotes (process_all P ?s1 files) = allNotes ?s1 @ new"
         "nextId (process_all P ?s1 files) = nextId ?s1 + int (length new)"
         "currentOrder (process_all P ?s1 files) = currentOrder ?s1 + int (length new)"
         "\<forall>k<length new. property ''id'' (new ! k) = JNum (nextId ?s1 + int k) \<and>
                         property ''order'' (new ! k) = JNum (currentOrder ?s1 + int k)"
      by blast
    let ?note = "JObj (build_note f c (nextId st) (currentOrder st) obj)"
    have "\<forall>k<length (?note # new).
            property ''id'' ((?note # new) ! k) = JNum (nextId st + int k) \<and>
            property ''order'' ((?note # new) ! k) = JNum (currentOrder st + int k)"
    proof (intro allI impI)
      fix k
      assume k: "k < length (?note # new)"
      show "property ''id'' ((?note # new) ! k) = JNum (nextId st + int k) \<and>
            property ''order'' ((?note # new) ! k) = JNum (currentOrder st + int k)"
      proof (cases k)
        case 0
        then show ?thesis by (simp add: property_object build_note_id build_note_order)
      next
        case (Suc j)
        with k n(4) a show ?thesis by simp
      qed
    qed
    moreover have "allNotes (process_all P st (f # files)) = allNotes st @ (?note # new)"
      using step n a by simp
    moreover have "nextId (process_all P st (f # files)) =
                   nextId st + int (length (?note # new))"
      using step n a by simp
    moreover have "currentOrder (process_all P st (f # files)) =
                   currentOrder st + int (length (?note # new))"
      using step n a by simp
    ultimately show ?thesis by blast
  qed
qed

lemma has_member_iff: "has_member n obj = (\<exists>k v. (k, v) \<in> set obj \<and> ci_eq k n)"
  by (auto simp: has_member_def find_None_iff)

lemma Contains_has_member: "Contains n obj \<Longrightarrow> has_member n obj"
  by (auto simp: Contains_def has_member_iff ci_eq_def)

lemma Contains_Add_Member_Force:
  "Contains n (Add_Member_Force m v obj) = (n = m \<or> (Contains n obj \<and> \<not> ci_eq n m))"
  by (auto simp: Contains_def Add_Member_Force_def)

lemma Contains_Add_Member:
  "Contains n (Add_Member m v obj) = (Contains n obj \<or> (n = m \<and> \<not> has_member m obj))"
  by (auto simp: Contains_def Add_Member_def)

lemma has_member_Add_Member_Force:
  "has_member n (Add_Member_Force m v obj) = (ci_eq m n \<or> has_member n obj)"
proof (cases "ci_eq m n")
  case True
  then show ?thesis
    by (simp add: has_member_def Add_Member_Force_def find_append split: option.splits)
next
  case False
  have "find (\<lambda>kv. ci_eq (fst kv) n) (filter (\<lambda>kv. \<not> ci_eq (fst kv) m) obj)
        = find (\<lambda>kv. ci_eq (fst kv) n) obj"
    using False by (intro find_filter_keep) (auto simp: ci_eq_def)
  then show ?thesis using False
    by (simp add: has_member_def Add_Member_Force_def find_append split: option.splits)
qed

lemma has_member_Add_Member:
  "has_member n (Add_Member m v obj) = (has_member n obj \<or> (ci_eq m n \<and> \<not> has_member m obj))"
  by (auto simp: has_member_iff Add_Member_def ci_eq_def)

lemma in_Add_Member_Force:
  "(kv \<in> set (Add_Member_Force m x obj)) = ((kv \<in> set obj \<and> \<not> ci_eq (fst kv) m) \<or> kv = (m, x))"
  by (auto simp: Add_Member_Force_def)

lemma in_Add_Member: "kv \<in> set obj \<Longrightarrow> kv \<in> set (Add_Member m x obj)"
  by (simp add: Add_Member_def)

lemma get_member_Add_Member_new:
  "\<not> has_member n obj \<Longrightarrow> get_member n (Add_Member n v obj) = v"
  by (auto simp: get_member_def Add_Member_def has_member_def find_append ci_eq_def
      split: option.splits)

lemma ci_refl: "ci_eq n n"
  by (simp add: ci_eq_def)

lemma ci_names:
  "\<not> ci_eq ''text'' ''title''" "\<not> ci_eq ''text'' ''status''" "\<not> ci_eq ''text'' ''priority''"
  "\<not> ci_eq ''text'' ''isPrivate''"
  "\<not> ci_eq ''title'' ''text''" "\<not> ci_eq ''title'' ''status''" "\<not> ci_eq ''title'' ''priority''"
  "\<not> ci_eq ''title'' ''isPrivate''"
  "\<not> ci_eq ''status'' ''text''" "\<not> ci_eq ''status'' ''title''" "\<not> ci_eq ''status'' ''priority''"
  "\<not> ci_eq ''status'' ''isPrivate''"
  "\<not> ci_eq ''priority'' ''text''" "\<not> ci_eq ''priority'' ''title''" "\<not> ci_eq ''priority'' ''status''"
  "\<not> ci_eq ''priority'' ''isPrivate''"
  "\<not> ci_eq ''isPrivate'' ''text''" "\<not> ci_eq ''isPrivate'' ''title''" "\<not> ci_eq ''isPrivate'' ''status''"
  "\<not> ci_eq ''isPrivate'' ''priority''"
  by (simp_all add: ci_eq_def to_lower_def)

lemma fallbackTitle_not_blank: "\<not> IsNullOrWhiteSpace (fallbackTitle b c i)"
  by (simp add: fallbackTitle_def Let_def IsNullOrWhiteSpace_def is_whitespace_def)

lemma get_member_ensure_default:
  "\<not> ci_eq m n \<Longrightarrow> get_member n (ensure_default m v obj) = get_member n obj"
  by (simp add: ensure_default_def get_member_Add_Member_Force)

lemma get_member_ensure_default_new:
  "\<not> has_member m obj \<Longrightarrow> get_member m (ensure_default m v obj) = v"
  using Contains_has_member [of m obj]
  by (auto simp: ensure_default_def get_member_Add_Member_Force ci_refl)

lemma Contains_ensure_default_same: "Contains m (ensure_default m v obj)"
  by (simp add: ensure_default_def Contains_Add_Member_Force)

lemma Contains_ensure_default:
  "\<not> ci_eq n m \<Longrightarrow> Contains n (ensure_default m v obj) = Contains n obj"
  by (auto simp: ensure_default_def Contains_Add_Member_Force ci_refl)

lemma has_member_ensure_default:
  "has_member n obj \<Longrightarrow> has_member n (ensure_default m v obj)"
  by (simp add: ensure_default_def has_member_Add_Member_Force)

lemma has_member_ensure_default_iff:
  "\<not> ci_eq m n \<Longrightarrow> has_member n (ensure_default m v obj) = has_member n obj"
  by (simp add: ensure_default_def has_member_Add_Member_Force)

lemma in_ensure_default:
  "kv \<in> set obj \<Longrightarrow> \<not> ci_eq (fst kv) m \<or> fst kv = m \<Longrightarrow> kv \<in> set (ensure_default m x obj)"
  by (cases kv) (auto simp: ensure_default_def in_Add_Member_Force Contains_def intro: rev_image_eqI)

lemma ensure_default_fixed: "Contains m obj \<Longrightarrow> ensure_default m v obj = obj"
  by (simp add: ensure_default_def)

lemma get_member_ensure_title:
  "\<not> ci_eq ''title'' n \<Longrightarrow> get_member n (ensure_title b c i obj) = get_member n obj"
  by (simp add: ensure_title_def get_member_Add_Member_Force)

lemma get_member_ensure_title_derived:
  "\<not> Contains ''title'' obj \<or> blank_value (get_member ''title'' obj) \<Longrightarrow>
   get_member ''title'' (ensure_title b c i obj) = JStr (fallbackTitle b c i)"
  by (auto simp: ensure_title_def get_member_Add_Member_Force ci_refl)

lemma Contains_ensure_title_same: "Contains ''title'' (ensure_title b c i obj)"
  by (simp add: ensure_title_def Contains_Add_Member_Force)

lemma not_blank_ensure_title: "\<not> blank_value (get_member ''title'' (ensure_title b c i obj))"
  by (simp add: ensure_title_def get_member_Add_Member_Force ci_refl fallbackTitle_not_blank)

lemma Contains_ensure_title:
  "\<not> ci_eq n ''title'' \<Longrightarrow> Contains n (ensure_title b c i obj) = Contains n obj"
  by (auto simp: ensure_title_def Contains_Add_Member_Force ci_refl)

lemma has_member_ensure_title:
  "has_member n obj \<Longrightarrow> has_member n (ensure_title b c i obj)"
  by (simp add: ensure_title_def has_member_Add_Member_Force)

lemma has_member_ensure_title_iff:
  "\<not> ci_eq ''title'' n \<Longrightarrow> has_member n (ensure_title b c i obj) = has_member n obj"
  by (simp add: ensure_title_def has_member_Add_Member_Force)

lemma in_ensure_title:
  "kv \<in> set obj \<Longrightarrow>
   \<not> ci_eq (fst kv) ''title'' \<or> (fst kv = ''title'' \<and> \<not> blank_value (get_member ''title'' obj)) \<Longrightarrow>
   kv \<in> set (ensure_title b c i obj)"
  by (cases kv) (auto simp: ensure_title_def in_Add_Member_Force Contains_def intro: rev_image_eqI)

lemma ensure_title_fixed:
  "Contains ''title'' obj \<Longrightarrow> \<not> blank_value (get_member ''title'' obj) \<Longrightarrow> ensure_title b c i obj = obj"
  by (simp add: ensure_title_def)

lemma get_member_ensure_text:
  "\<not> ci_eq ''text'' n \<Longrightarrow> get_member n (ensure_text c obj) = get_member n obj"
  by (simp add: ensure_text_def get_member_Add_Member)

lemma get_member_ensure_text_new:
  "\<not> has_member ''text'' obj \<Longrightarrow> get_member ''text'' (ensure_text c obj) = JStr c"
  using Contains_has_member [of "''text''" obj]
  by (auto simp: ensure_text_def get_member_Add_Member_new)

lemma has_member_ensure_text_same: "has_member ''text'' (ensure_text c obj)"
  by (auto simp: ensure_text_def has_member_Add_Member Contains_has_member ci_refl)

lemma Contains_ensure_text:
  "n \<noteq> ''text'' \<Longrightarrow> Contains n (ensure_text c obj) = Contains n obj"
  by (simp add: ensure_text_def Contains_Add_Member)

lemma has_member_ensure_text_iff:
  "\<not> ci_eq ''text'' n \<Longrightarrow> has_member n (ensure_text c obj) = has_member n obj"
  by (simp add: ensure_text_def has_member_Add_Member)

lemma in_ensure_text: "kv \<in> set obj \<Longrightarrow> kv \<in> set (ensure_text c obj)"
  by (simp add: ensure_text_def in_Add_Member)

lemma ensure_text_fixed: "has_member ''text'' obj \<Longrightarrow> ensure_text c obj = obj"
  by (simp add: ensure_text_def Add_Member_def)

lemma Schema_Normalizer_fixed:
  assumes "has_member ''text'' obj" "Contains ''title'' obj" "\<not> blank_value (get_member ''title'' obj)"
    "Contains ''status'' obj" "Contains ''priority'' obj" "Contains ''isPrivate'' obj"
  shows "Schema_Normalizer b c i obj = obj"
  using assms
  by (simp add: Schema_Normalizer_def ensure_text_fixed ensure_title_fixed ensure_default_fixed)

lemma Schema_Normalizer_normal:
  "has_member ''text'' (Schema_Normalizer b c i obj)"
  "Contains ''title'' (Schema_Normalizer b c i obj)"
  "\<not> blank_value (get_member ''title'' (Schema_Normalizer b c i obj))"
  "Contains ''status'' (Schema_Normalizer b c i obj)"
  "Contains ''priority'' (Schema_Normalizer b c i obj)"
  "Contains ''isPrivate'' (Schema_Normalizer b c i obj)"
  by (simp_all add: Schema_Normalizer_def has_member_ensure_default has_member_ensure_title
      has_member_ensure_text_same Contains_ensure_default Contains_ensure_default_same
      Contains_ensure_title_same get_member_ensure_default not_blank_ensure_title ci_names)

lemma Schema_Normalizer_twice: "Schema_Normalizer b c i (Schema_Normalizer b c i obj) = Schema_Normalizer b c i obj"
  by (intro Schema_Normalizer_fixed Schema_Normalizer_normal)

lemma complete_note_fixed: "complete_note obj \<Longrightarrow> Schema_Normalizer b c i obj = obj"
  by (intro Schema_Normalizer_fixed) (simp_all add: complete_note_def Contains_has_member)

lemma title_derived:
  "\<not> Contains ''title'' obj \<or> blank_value (get_member ''title'' obj) \<Longrightarrow>
   get_member ''title'' (Schema_Normalizer b c i obj) = JStr (fallbackTitle b c i)"
  by (simp add: Schema_Normalizer_def get_member_ensure_default ci_names
      get_member_ensure_title_derived Contains_ensure_text get_member_ensure_text)

lemma default_text:
  "\<not> has_member ''text'' obj \<Longrightarrow> get_member ''text'' (Schema_Normalizer b c i obj) = JStr c"
  by (simp add: Schema_Normalizer_def get_member_ensure_default get_member_ensure_title ci_names
      get_member_ensure_text_new)

lemma default_status:
  "\<not> has_member ''status'' obj \<Longrightarrow> get_member ''status'' (Schema_Normalizer b c i obj) = JStr ''Open''"
  by (simp add: Schema_Normalizer_def get_member_ensure_default ci_names
      get_member_ensure_default_new has_member_ensure_title_iff has_member_ensure_text_iff)

lemma default_priority:
  "\<not> has_member ''priority'' obj \<Longrightarrow> get_member ''priority'' (Schema_Normalizer b c i obj) = JStr ''Medium''"
  by (simp add: Schema_Normalizer_def get_member_ensure_default ci_names
      get_member_ensure_default_new has_member_ensure_title_iff has_member_ensure_text_iff
      has_member_ensure_default_iff)

lemma default_isPrivate:
  "\<not> has_member ''isPrivate'' obj \<Longrightarrow> get_member ''isPrivate'' (Schema_Normalizer b c i obj) = JBool False"
  by (simp add: Schema_Normalizer_def get_member_ensure_default ci_names
      get_member_ensure_default_new has_member_ensure_title_iff has_member_ensure_text_iff
      has_member_ensure_default_iff)

lemma field_passes_through:
  assumes kv: "(k, v) \<in> set obj" and nv: "\<not> case_variant k"
    and t: "\<not> (k = ''title'' \<and> blank_value (get_member ''title'' obj))"
  shows "(k, v) \<in> set (Schema_Normalizer b c i obj)"
proof -
  have v: "\<not> ci_eq k ''title'' \<or> k = ''title''" "\<not> ci_eq k ''status'' \<or> k = ''status''"
    "\<not> ci_eq k ''priority'' \<or> k = ''priority''" "\<not> ci_eq k ''isPrivate'' \<or> k = ''isPrivate''"
    using nv by (auto simp: case_variant_def)
  have 1: "(k, v) \<in> set (ensure_text c obj)" using kv by (rule in_ensure_text)
  have "get_member ''title'' (ensure_text c obj) = get_member ''title'' obj"
    by (simp add: get_member_ensure_text ci_names)
  with t v(1) have "\<not> ci_eq (fst (k, v)) ''title'' \<or>
     (fst (k, v) = ''title'' \<and> \<not> blank_value (get_member ''title'' (ensure_text c obj)))"
    by auto
  with 1 have 2: "(k, v) \<in> set (ensure_title b c i (ensure_text c obj))" by (rule in_ensure_title)
  have 3: "(k, v) \<in> set (ensure_default ''status'' (JStr ''Open'') (ensure_title b c i (ensure_text c obj)))"
    by (rule in_ensure_default [OF 2]) (use v(2) in simp)
  have 4: "(k, v) \<in> set (ensure_default ''priority'' (JStr ''Medium'')
     (ensure_default ''status'' (JStr ''Open'') (ensure_title b c i (ensure_text c obj))))"
    by (rule in_ensure_default [OF 3]) (use v(3) in simp)
  show ?thesis unfolding Schema_Normalizer_def
    by (rule in_ensure_default [OF 4]) (use v(4) in simp)
qed

lemma has_member_ensure_text:
  "has_member n obj \<Longrightarrow> has_member n (ensure_text c obj)"
  by (simp add: ensure_text_def has_member_Add_Member)

lemma dropWhile_ws_append:
  "list_all is_whitespace w \<Longrightarrow> dropWhile is_whitespace (w @ r) = dropWhile is_whitespace r"
  by (simp add: list_all_iff)

lemma dropWhile_ws_keep:
  "r \<noteq> [] \<Longrightarrow> \<not> is_whitespace (hd r) \<Longrightarrow> dropWhile is_whitespace r = r"
  by (cases r) simp_all

lemma Trim_core:
  assumes "list_all is_whitespace wa" "list_all is_whitespace wd"
    and "t \<noteq> []" "\<not> is_whitespace (hd t)" "\<not> is_whitespace (last t)"
  shows "Trim (wa @ t @ wd) = t"
proof -
  have 1: "dropWhile is_whitespace (wa @ t @ wd) = t @ wd"
    using assms by (simp add: dropWhile_ws_append dropWhile_ws_keep)
  have "list_all is_whitespace (rev wd)" using assms(2) by (simp add: list_all_iff)
  then have "dropWhile is_whitespace (rev wd @ rev t) = dropWhile is_whitespace (rev t)"
    by (rule dropWhile_ws_append)
  also have "\<dots> = rev t"
    using assms by (intro dropWhile_ws_keep) (simp_all add: hd_rev)
  finally show ?thesis by (simp add: Trim_def 1)
qed

lemma fence_facts:
  "fence \<noteq> []" "length fence = 3" "rev fence = fence" "\<not> is_whitespace (hd fence)"
  "\<not> is_whitespace (last fence)" "hd (fence @ r) = CHR 0x60" "take 3 (fence @ r) = fence"
  "drop 3 (fence @ r) = r"
  by (simp_all add: fence_def is_whitespace_def numeral_3_eq_3)

lemma strip_leading_fence_wrapped:
  assumes "ci_eq tag ''json''" "list_all is_whitespace wb" "r \<noteq> []" "\<not> is_whitespace (hd r)"
  shows "strip_leading_fence (fence @ tag @ wb @ r) = r"
proof -
  have "length (map to_lower tag) = length (map to_lower ''json'')"
    using assms(1) by (simp only: ci_eq_def)
  then have len: "length tag = 4" by simp
  have d: "dropWhile is_whitespace (fence @ tag @ wb @ r) = fence @ tag @ wb @ r"
    by (intro dropWhile_ws_keep) (simp_all add: fence_facts is_whitespace_def)
  have t: "take 7 (fence @ tag @ wb @ r) = fence @ tag" using len by (simp add: fence_facts)
  have dr: "drop 7 (fence @ tag @ wb @ r) = wb @ r" using len by (simp add: fence_facts)
  have c: "ci_eq (fence @ tag) (fence @ ''json'')" using assms(1) by (simp add: ci_eq_def)
  have e: "dropWhile is_whitespace (wb @ r) = r"
    using assms by (simp add: dropWhile_ws_append dropWhile_ws_keep)
  show ?thesis unfolding strip_leading_fence_def Let_def d t dr e using c by simp
qed

lemma strip_trailing_fence_wrapped:
  assumes "list_all is_whitespace wc" "body \<noteq> []" "\<not> is_whitespace (last body)"
  shows "strip_trailing_fence (body @ wc @ fence) = body"
proof -
  have r: "rev (body @ wc @ fence) = fence @ rev wc @ rev body" by (simp add: fence_facts)
  have d: "dropWhile is_whitespace (fence @ rev wc @ rev body) = fence @ rev wc @ rev body"
    by (intro dropWhile_ws_keep) (simp_all add: fence_facts is_whitespace_def)
  have "list_all is_whitespace (rev wc)" using assms(1) by (simp add: list_all_iff)
  then have "dropWhile is_whitespace (rev wc @ rev body) = dropWhile is_whitespace (rev body)"
    by (rule dropWhile_ws_append)
  also have "\<dots> = rev body" using assms by (intro dropWhile_ws_keep) (simp_all add: hd_rev)
  finally show ?thesis by (simp add: strip_trailing_fence_def r d fence_facts)
qed

lemma clean_fences_wrapped:
  assumes ws: "list_all is_whitespace wa" "list_all is_whitespace wb" "list_all is_whitespace wc"
      "list_all is_whitespace wd"
    and tag: "ci_eq tag ''json''"
    and body: "body \<noteq> []" "hd body = CHR ''{''" "last body = CHR ''}''"
  shows "Trim (wa @ fence @ tag @ wb @ body @ wc @ fence @ wd) = fence @ tag @ wb @ body @ wc @ fence"
    and "clean_fences (fence @ tag @ wb @ body @ wc @ fence) = body"
proof -
  let ?t = "fence @ tag @ wb @ body @ wc @ fence"
  have "Trim (wa @ ?t @ wd) = ?t"
    using ws by (intro Trim_core) (simp_all add: fence_facts is_whitespace_def fence_def)
  then show "Trim (wa @ fence @ tag @ wb @ body @ wc @ fence @ wd) = ?t" by simp
  have b: "\<not> is_whitespace (hd body)" "\<not> is_whitespace (last body)"
    using body by (simp_all add: is_whitespace_def)
  have "strip_leading_fence (fence @ tag @ wb @ (body @ wc @ fence)) = body @ wc @ fence"
    using tag ws(2) body b by (intro strip_leading_fence_wrapped) simp_all
  then show "clean_fences ?t = body"
    using ws(3) body b by (simp add: clean_fences_def strip_trailing_fence_wrapped)
qed

lemma has_member_Schema_Normalizer:
  "has_member n obj \<Longrightarrow> has_member n (Schema_Normalizer b c i obj)"
  by (simp add: Schema_Normalizer_def has_member_ensure_default has_member_ensure_title
      has_member_ensure_text)

lemma populated_build_note: "populated (build_note f c i k obj)"
proof -
  have o: "\<not> ci_eq ''order'' ''title''" by (simp add: ci_eq_def to_lower_def)
  show ?thesis
    unfolding populated_def build_note_def
    using Schema_Normalizer_normal [of "fileBaseName f" c i
        "Add_Member_Force ''createdAt'' (JStr (fileDate f)) (Add_Member_Force ''id'' (JNum i) obj)"]
    by (simp add: has_member_Add_Member_Force get_member_Add_Member_Force o ci_refl
        Contains_has_member has_member_Schema_Normalizer)
qed


subsection \<open>The next identifier\<close>




subsection \<open>The classification gate\<close>




subsection \<open>Skipped inputs\<close>

text \<open>
  C3. For every input the gate rejects, and for every accepted input whose generator
  payload is absent or unparsable, processing the input appends no note to the
  collection and leaves both counters, \<open>nextId\<close> and \<open>currentOrder\<close>, as they were.
\<close>

theorem skip_leaves_collection_and_counters:
  assumes "\<not> Classification_Gate (extract_text (response1 file)) \<or>
           (Classification_Gate (extract_text (response1 file)) \<and> payload_unusable P file)"
  shows "allNotes (process_file P st file) = allNotes st \<and>
         nextId (process_file P st file) = nextId st \<and>
         currentOrder (process_file P st file) = currentOrder st \<and>
         addedCount (process_file P st file) = addedCount st"
  using assms
  by (auto simp: process_file_def Let_def generate_unusable split: option.splits)

theorem skip_leaves_collection_and_counters_witness:
  "allNotes (process_file (\<lambda>s. None) (initial_state [])
      \<lparr>fileName = ''a.txt'', fileBaseName = ''a'', fileContent = Some ''lorem ipsum'',
       fileDate = ''2024-08-16T10:00:00.000Z'', response1 = ApiText (Some ''No''),
       response2 = ApiNull\<rparr>) = []
   \<and> nextId (process_file (\<lambda>s. None) (initial_state [])
      \<lparr>fileName = ''b.txt'', fileBaseName = ''b'', fileContent = Some ''buy milk'',
       fileDate = ''2024-08-16T10:00:00.000Z'', response1 = ApiText (Some ''Yes''),
       response2 = ApiText (Some ''not json'')\<rparr>) = 1"
proof -
  let ?a = "\<lparr>fileName = ''a.txt'', fileBaseName = ''a'', fileContent = Some ''lorem ipsum'',
       fileDate = ''2024-08-16T10:00:00.000Z'', response1 = ApiText (Some ''No''),
       response2 = ApiNull\<rparr>"
  let ?b = "\<lparr>fileName = ''b.txt'', fileBaseName = ''b'', fileContent = Some ''buy milk'',
       fileDate = ''2024-08-16T10:00:00.000Z'', response1 = ApiText (Some ''Yes''),
       response2 = ApiText (Some ''not json'')\<rparr>"
  have ha: "\<not> Classification_Gate (extract_text (response1 ?a))" by code_simp
  have hb: "Classification_Gate (extract_text (response1 ?b)) \<and> payload_unusable (\<lambda>s. None) ?b"
    by code_simp
  have i: "allNotes (initial_state []) = []" "nextId (initial_state []) = 1"
    by (simp_all add: initial_state_def compute_nextId_def)
  from skip_leaves_collection_and_counters [of ?a "\<lambda>s. None" "initial_state []"] ha
  have "allNotes (process_file (\<lambda>s. None) (initial_state []) ?a) = []"
    by (simp only: i) simp
  moreover
  from skip_leaves_collection_and_counters [of ?b "\<lambda>s. None" "initial_state []"] hb
  have "nextId (process_file (\<lambda>s. None) (initial_state []) ?b) = 1"
    by (simp only: i) simp
  ultimately show ?thesis by simp
qed

text \<open>
  C9. For every input whose text is empty after trimming white space, the item is skipped
  before any external call: processing it makes no call of the service, adds no note and
  leaves \<open>nextId\<close> and \<open>currentOrder\<close> unchanged.
\<close>

theorem empty_input_makes_no_call:
  assumes "fileContent file = Some content" and "Trim content = []"
  shows "apiCalls (process_file P st file) = apiCalls st \<and>
         allNotes (process_file P st file) = allNotes st \<and>
         nextId (process_file P st file) = nextId st \<and>
         currentOrder (process_file P st file) = currentOrder st"
  using assms Trim_empty [of content] by (simp add: process_file_def)

theorem empty_input_makes_no_call_witness:
  "apiCalls (process_file (\<lambda>s. Some (JObj [])) (initial_state [])
      \<lparr>fileName = ''e.txt'', fileBaseName = ''e'', fileContent = Some [CHR '' '', CHR 0x0A],
       fileDate = ''2024-08-16T10:00:00.000Z'', response1 = ApiText (Some ''Yes''),
       response2 = ApiText (Some ''{}'')\<rparr>) = 0"
proof -
  let ?e = "\<lparr>fileName = ''e.txt'', fileBaseName = ''e'', fileContent = Some [CHR '' '', CHR 0x0A],
       fileDate = ''2024-08-16T10:00:00.000Z'', response1 = ApiText (Some ''Yes''),
       response2 = ApiText (Some ''{}'')\<rparr>"
  have c: "fileContent ?e = Some [CHR '' '', CHR 0x0A]" by simp
  have t: "Trim [CHR '' '', CHR 0x0A] = []" by (simp add: Trim_def is_whitespace_def)
  have i: "apiCalls (initial_state []) = 0" by (simp add: initial_state_def)
  from empty_input_makes_no_call [OF c t, of "\<lambda>s. Some (JObj [])" "initial_state []"]
  show ?thesis by (simp only: i)
qed

subsection \<open>Identity and order of the notes of one run\<close>

text \<open>
  C10, as stated, fails, in two ways. When a payload parses to a JSON array, every
  \<^verbatim>\<open>Add-Member\<close> stamps each element of the array and \<^verbatim>\<open>$allNotes += $jsonObject\<close> appends
  each of them, while the counters advance once: the two notes of one array carry the
  same \<open>id\<close> and the same \<open>order\<close>, and the note of the next file does not have the \<open>id\<close>
  and \<open>order\<close> of its position. And when the collection holds the id \<open>2 ^ 53 - 1\<close>, the
  first identifier is the double \<open>2 ^ 53\<close>, which \<^verbatim>\<open>$nextId++\<close> leaves as it is: two notes
  added one after the other carry the same \<open>id\<close>.
\<close>

theorem added_notes_not_consecutive:
  "map (property ''id'')
     (new_notes (\<lambda>s. if s = ''[{},{}]'' then Some (JArr [JObj [], JObj []])
                      else if s = ''{}'' then Some (JObj []) else None) []
        [\<lparr>fileName = ''a.txt'', fileBaseName = ''a'', fileContent = Some ''first'',
          fileDate = ''d1'', response1 = ApiText (Some ''Yes''),
          response2 = ApiText (Some ''[{},{}]'')\<rparr>,
         \<lparr>fileName = ''b.txt'', fileBaseName = ''b'', fileContent = Some ''second'',
          fileDate = ''d2'', response1 = ApiText (Some ''Yes''),
          response2 = ApiText (Some ''{}'')\<rparr>])
   = [JNum 1, JNum 1, JNum 2]
   \<and> map (property ''order'')
     (new_notes (\<lambda>s. if s = ''[{},{}]'' then Some (JArr [JObj [], JObj []])
                      else if s = ''{}'' then Some (JObj []) else None) []
        [\<lparr>fileName = ''a.txt'', fileBaseName = ''a'', fileContent = Some ''first'',
          fileDate = ''d1'', response1 = ApiText (Some ''Yes''),
          response2 = ApiText (Some ''[{},{}]'')\<rparr>,
         \<lparr>fileName = ''b.txt'', fileBaseName = ''b'', fileContent = Some ''second'',
          fileDate = ''d2'', response1 = ApiText (Some ''Yes''),
          response2 = ApiText (Some ''{}'')\<rparr>])
   = [JNum 0, JNum 0, JNum 1]
   \<and> compute_nextId [JObj [(''id'', JNum 9007199254740991)]] = 9007199254740992
   \<and> map (property ''id'')
     (new_notes (\<lambda>s. if s = ''{}'' then Some (JObj []) else None)
        [JObj [(''id'', JNum 9007199254740991)]]
        [\<lparr>fileName = ''a.txt'', fileBaseName = ''a'', fileContent = Some ''first'',
          fileDate = ''d1'', response1 = ApiText (Some ''Yes''),
          response2 = ApiText (Some ''{}'')\<rparr>,
         \<lparr>fileName = ''b.txt'', fileBaseName = ''b'', fileContent = Some ''second'',
          fileDate = ''d2'', response1 = ApiText (Some ''Yes''),
          response2 = ApiText (Some ''{}'')\<rparr>])
   = [JNum 9007199254740992, JNum 9007199254740992]"
  by code_simp

text \<open>
  C10, amended. Within one run in which every generator payload that parses is a JSON
  object, and in which the identifiers stay within the integers a double counts exactly
  (the initial \<open>nextId\<close> plus the number of input files is at most \<open>2 ^ 53\<close>), the notes that
  are added are stamped with consecutive values and no gaps, however many inputs in
  between were rejected or failed: the loaded notes stay in front, the k-th added note
  (counting from 0) has \<open>order\<close> k and \<open>id\<close> equal to the initial \<open>nextId\<close> plus k whatever
  the generator produced for these fields, and at the end both counters have advanced by
  the number of added notes.
\<close>

theorem added_notes_consecutive:
  assumes "list_all (object_payload P) files"
    and "compute_nextId loaded + int (length files) \<le> 2 ^ 53"
  shows
  "take (length loaded) (allNotes (process_all P (initial_state loaded) files)) = loaded \<and>
   allNotes (process_all P (initial_state loaded) files) = loaded @ new_notes P loaded files \<and>
   (\<forall>k<length (new_notes P loaded files).
      property ''id'' (new_notes P loaded files ! k) = JNum (compute_nextId loaded + int k) \<and>
      property ''order'' (new_notes P loaded files ! k) = JNum (int k)) \<and>
   nextId (process_all P (initial_state loaded) files) =
     compute_nextId loaded + int (length (new_notes P loaded files)) \<and>
   currentOrder (process_all P (initial_state loaded) files) =
     int (length (new_notes P loaded files))"
proof -
  have i: "allNotes (initial_state loaded) = loaded"
    "nextId (initial_state loaded) = compute_nextId loaded"
    "currentOrder (initial_state loaded) = 0"
    by (simp_all add: initial_state_def)
  have p: "1 \<le> compute_nextId loaded" by (rule nextId_pos)
  from p assms(2) have b: "0 \<le> nextId (initial_state loaded)"
    "nextId (initial_state loaded) + int (length files) \<le> 2 ^ 53"
    "0 \<le> currentOrder (initial_state loaded)"
    "currentOrder (initial_state loaded) + int (length files) \<le> 2 ^ 53"
    by (simp_all add: i)
  from process_all_stamps [OF assms(1) b] obtain new where
    n: "allNotes (process_all P (initial_state loaded) files) = allNotes (initial_state loaded) @ new"
       "nextId (process_all P (initial_state loaded) files) =
          nextId (initial_state loaded) + int (length new)"
       "currentOrder (process_all P (initial_state loaded) files) =
          currentOrder (initial_state loaded) + int (length new)"
       "\<forall>k<length new.
          property ''id'' (new ! k) = JNum (nextId (initial_state loaded) + int k) \<and>
          property ''order'' (new ! k) = JNum (currentOrder (initial_state loaded) + int k)"
    by blast
  have new: "new_notes P loaded files = new"
    by (simp add: new_notes_def n(1) i)
  show ?thesis using n by (simp add: new i)
qed

theorem added_notes_consecutive_witness:
  "property ''id''
     (new_notes (\<lambda>s. if s = ''{}'' then Some (JObj [(''id'', JNum 99), (''order'', JNum 7)]) else None)
        [JObj [(''id'', JNum 5)]]
        [\<lparr>fileName = ''a.txt'', fileBaseName = ''a'', fileContent = Some ''first'',
          fileDate = ''d1'', response1 = ApiText (Some ''Yes''), response2 = ApiText (Some ''{}'')\<rparr>,
         \<lparr>fileName = ''b.txt'', fileBaseName = ''b'', fileContent = Some ''second'',
          fileDate = ''d2'', response1 = ApiText (Some ''No''), response2 = ApiNull\<rparr>,
         \<lparr>fileName = ''c.txt'', fileBaseName = ''c'', fileContent = Some ''third'',
          fileDate = ''d3'', response1 = ApiText (Some ''Yes.''), response2 = ApiText (Some ''{}'')\<rparr>]
      ! 1) = JNum 7"
proof -
  let ?P = "\<lambda>s. if s = ''{}'' then Some (JObj [(''id'', JNum 99), (''order'', JNum 7)]) else None"
  let ?files = "[\<lparr>fileName = ''a.txt'', fileBaseName = ''a'', fileContent = Some ''first'',
          fileDate = ''d1'', response1 = ApiText (Some ''Yes''), response2 = ApiText (Some ''{}'')\<rparr>,
         \<lparr>fileName = ''b.txt'', fileBaseName = ''b'', fileContent = Some ''second'',
          fileDate = ''d2'', response1 = ApiText (Some ''No''), response2 = ApiNull\<rparr>,
         \<lparr>fileName = ''c.txt'', fileBaseName = ''c'', fileContent = Some ''third'',
          fileDate = ''d3'', response1 = ApiText (Some ''Yes.''), response2 = ApiText (Some ''{}'')\<rparr>]"
  have l: "length (new_notes ?P [JObj [(''id'', JNum 5)]] ?files) = 2" by code_simp
  have c: "compute_nextId [JObj [(''id'', JNum 5)]] = 6" by code_simp
  have o: "list_all (object_payload ?P) ?files" by code_simp
  have b: "compute_nextId [JObj [(''id'', JNum 5)]] + int (length ?files) \<le> 2 ^ 53"
    unfolding c by simp
  from added_notes_consecutive [OF o b]
  have "\<forall>k<2. property ''id'' (new_notes ?P [JObj [(''id'', JNum 5)]] ?files ! k) = JNum (6 + int k)"
    unfolding l c by blast
  then have "property ''id'' (new_notes ?P [JObj [(''id'', JNum 5)]] ?files ! 1) = JNum (6 + int 1)"
    by (metis one_less_numeral_iff semiring_norm(76))
  then show ?thesis by simp
qed

subsection \<open>The schema normalizer\<close>

text \<open>
  C5. The claim: for a partial note whose title is absent or blank the derived title is
  (a) the naming hint with hyphens and underscores replaced by spaces if that is not
  blank, (b) otherwise the first five white-space-delimited tokens of the source text
  joined by single spaces, (c) otherwise a placeholder with the identifier. The script
  splits the raw text with \<^verbatim>\<open>-split '\s+'\<close>, so a text that begins with white space has an
  empty first piece: for the file \<^verbatim>\<open>_.txt\<close> holding
  \<^verbatim>\<open>" alpha beta gamma delta epsilon zeta"\<close> and a generated object without title, the
  note's title is \<^verbatim>\<open>" alpha beta gamma delta"\<close>, a leading space and four words, where (b)
  promises \<^verbatim>\<open>"alpha beta gamma delta epsilon"\<close>.
\<close>

theorem fallback_title_leading_whitespace:
  "property ''title''
     (new_notes (\<lambda>s. if s = ''{}'' then Some (JObj []) else None) []
        [\<lparr>fileName = ''_.txt'', fileBaseName = ''_'',
          fileContent = Some '' alpha beta gamma delta epsilon zeta'',
          fileDate = ''2024-08-16T10:00:00.000Z'',
          response1 = ApiText (Some ''Yes''), response2 = ApiText (Some ''{}'')\<rparr>] ! 0)
   = JStr '' alpha beta gamma delta''"
  by code_simp


text \<open>
  C6, as stated, fails: not every field that is present passes through unchanged. A title
  that is present but blank is replaced by the derived title, and a field whose name
  differs from \<^verbatim>\<open>status\<close> only in letter case is removed when the default is forced in.
\<close>

theorem present_field_not_passed_through:
  "(''title'', JStr '' '')
     \<in> set [(''id'', JNum 1), (''createdAt'', JStr ''2024-08-16T10:00:00.000Z''),
             (''title'', JStr '' ''), (''Status'', JStr ''Closed'')]
   \<and> (''title'', JStr '' '')
     \<notin> set (Schema_Normalizer ''plan'' ''Buy milk'' 1
         [(''id'', JNum 1), (''createdAt'', JStr ''2024-08-16T10:00:00.000Z''),
          (''title'', JStr '' ''), (''Status'', JStr ''Closed'')])
   \<and> (''Status'', JStr ''Closed'')
     \<in> set [(''id'', JNum 1), (''createdAt'', JStr ''2024-08-16T10:00:00.000Z''),
             (''title'', JStr '' ''), (''Status'', JStr ''Closed'')]
   \<and> (''Status'', JStr ''Closed'')
     \<notin> set (Schema_Normalizer ''plan'' ''Buy milk'' 1
         [(''id'', JNum 1), (''createdAt'', JStr ''2024-08-16T10:00:00.000Z''),
          (''title'', JStr '' ''), (''Status'', JStr ''Closed'')])
   \<and> Schema_Normalizer ''plan'' ''Buy milk'' 1
         [(''id'', JNum 1), (''createdAt'', JStr ''2024-08-16T10:00:00.000Z''),
          (''title'', JStr '' ''), (''Status'', JStr ''Closed'')]
       = [(''id'', JNum 1), (''createdAt'', JStr ''2024-08-16T10:00:00.000Z''),
          (''text'', JStr ''Buy milk''), (''title'', JStr ''plan''), (''status'', JStr ''Open''),
          (''priority'', JStr ''Medium''), (''isPrivate'', JBool False)]"
proof -
  have e: "Schema_Normalizer ''plan'' ''Buy milk'' 1
         [(''id'', JNum 1), (''createdAt'', JStr ''2024-08-16T10:00:00.000Z''),
          (''title'', JStr '' ''), (''Status'', JStr ''Closed'')]
       = [(''id'', JNum 1), (''createdAt'', JStr ''2024-08-16T10:00:00.000Z''),
          (''text'', JStr ''Buy milk''), (''title'', JStr ''plan''), (''status'', JStr ''Open''),
          (''priority'', JStr ''Medium''), (''isPrivate'', JBool False)]"
    by code_simp
  show ?thesis unfolding e by simp
qed

text \<open>
  C6, amended. For every partial note the normalizer sets \<open>text\<close> to the source text
  verbatim, \<open>status\<close> to Open, \<open>priority\<close> to Medium and \<open>isPrivate\<close> to false when the
  note has no such field (in any letter case), and every field that is present passes
  through unchanged, except a title that is blank (it is replaced by the derived title);
  nothing is said about a field whose name differs from \<open>title\<close>, \<open>status\<close>, \<open>priority\<close> or
  \<open>isPrivate\<close> only in letter case. The step is a total function: it yields a note for
  every input, one in which all five fields are populated.
\<close>

theorem normalizer_defaults_and_passthrough:
  "(\<not> has_member ''text'' obj \<longrightarrow>
      get_member ''text'' (Schema_Normalizer b c i obj) = JStr c) \<and>
   (\<not> has_member ''status'' obj \<longrightarrow>
      get_member ''status'' (Schema_Normalizer b c i obj) = JStr ''Open'') \<and>
   (\<not> has_member ''priority'' obj \<longrightarrow>
      get_member ''priority'' (Schema_Normalizer b c i obj) = JStr ''Medium'') \<and>
   (\<not> has_member ''isPrivate'' obj \<longrightarrow>
      get_member ''isPrivate'' (Schema_Normalizer b c i obj) = JBool False) \<and>
   (\<forall>k v. (k, v) \<in> set obj \<and> \<not> case_variant k \<and>
          \<not> (k = ''title'' \<and> blank_value (get_member ''title'' obj)) \<longrightarrow>
          (k, v) \<in> set (Schema_Normalizer b c i obj)) \<and>
   has_member ''text'' (Schema_Normalizer b c i obj) \<and>
   Contains ''title'' (Schema_Normalizer b c i obj) \<and>
   \<not> blank_value (get_member ''title'' (Schema_Normalizer b c i obj)) \<and>
   Contains ''status'' (Schema_Normalizer b c i obj) \<and>
   Contains ''priority'' (Schema_Normalizer b c i obj) \<and>
   Contains ''isPrivate'' (Schema_Normalizer b c i obj)"
  using default_text [of obj b c i] default_status [of obj b c i] default_priority [of obj b c i]
    default_isPrivate [of obj b c i] field_passes_through [of _ _ obj b c i]
    Schema_Normalizer_normal [of b c i obj]
  by blast

theorem normalizer_defaults_and_passthrough_witness:
  "get_member ''status''
     (Schema_Normalizer ''plan'' ''Buy milk'' 3
        [(''id'', JNum 3), (''createdAt'', JStr ''2024-08-16T10:00:00.000Z''),
         (''title'', JStr ''Plan''), (''tags'', JArr [JStr ''home''])]) = JStr ''Open''
   \<and> (''tags'', JArr [JStr ''home''])
      \<in> set (Schema_Normalizer ''plan'' ''Buy milk'' 3
          [(''id'', JNum 3), (''createdAt'', JStr ''2024-08-16T10:00:00.000Z''),
           (''title'', JStr ''Plan''), (''tags'', JArr [JStr ''home''])])"
proof -
  let ?obj = "[(''id'', JNum 3), (''createdAt'', JStr ''2024-08-16T10:00:00.000Z''),
               (''title'', JStr ''Plan''), (''tags'', JArr [JStr ''home''])]"
  have h1: "\<not> has_member ''status'' ?obj" by code_simp
  have h2: "(''tags'', JArr [JStr ''home'']) \<in> set ?obj" by simp
  have h3: "\<not> case_variant ''tags''" by code_simp
  have h4: "\<not> (''tags'' = ''title'' \<and> blank_value (get_member ''title'' ?obj))" by simp
  note t = normalizer_defaults_and_passthrough [of ?obj "''plan''" "''Buy milk''" 3]
  from t h1 have "get_member ''status'' (Schema_Normalizer ''plan'' ''Buy milk'' 3 ?obj) = JStr ''Open''"
    by blast
  moreover from t h2 h3 h4
  have "(''tags'', JArr [JStr ''home'']) \<in> set (Schema_Normalizer ''plan'' ''Buy milk'' 3 ?obj)"
    by blast
  ultimately show ?thesis by blast
qed

text \<open>
  C8. The normalizer is idempotent: applying it a second time changes nothing, and a note
  that is already complete (the six required fields present, the title not blank) comes
  back unchanged.
\<close>

theorem normalizer_idempotent:
  "Schema_Normalizer b c i (Schema_Normalizer b c i obj) = Schema_Normalizer b c i obj \<and>
   (complete_note obj \<longrightarrow> Schema_Normalizer b c i obj = obj)"
  using Schema_Normalizer_twice [of b c i obj] complete_note_fixed [of obj b c i] by blast

theorem normalizer_idempotent_witness:
  "Schema_Normalizer ''plan'' ''Buy milk'' 4
     [(''title'', JStr ''Milk''), (''text'', JStr ''Buy milk''), (''status'', JStr ''Closed''),
      (''priority'', JStr ''High''), (''isPrivate'', JBool True), (''id'', JNum 4)]
   = [(''title'', JStr ''Milk''), (''text'', JStr ''Buy milk''), (''status'', JStr ''Closed''),
      (''priority'', JStr ''High''), (''isPrivate'', JBool True), (''id'', JNum 4)]"
proof -
  let ?obj = "[(''title'', JStr ''Milk''), (''text'', JStr ''Buy milk''), (''status'', JStr ''Closed''),
      (''priority'', JStr ''High''), (''isPrivate'', JBool True), (''id'', JNum 4)]"
  have h: "complete_note ?obj" by code_simp
  from normalizer_idempotent [of "''plan''" "''Buy milk''" 4 ?obj] h show ?thesis by blast
qed


subsection \<open>Fenced payloads\<close>

text \<open>
  C7, as stated, fails: a payload wrapped in fences that carry no \<^verbatim>\<open>json\<close> tag keeps its
  opening fence. The cleaned text then starts with three backticks, \<^verbatim>\<open>ConvertFrom-Json\<close>
  cannot read it, and the item is dropped.
\<close>

theorem bare_fence_not_stripped:
  "clean_fences (Trim (fence @ [CHR 0x0A] @ ''{}'' @ [CHR 0x0A] @ fence)) = fence @ [CHR 0x0A] @ ''{}''
   \<and> allNotes (process_file (\<lambda>s. if s = ''{}'' then Some (JObj []) else None) (initial_state [])
      \<lparr>fileName = ''milk.txt'', fileBaseName = ''milk'', fileContent = Some ''Buy milk'',
       fileDate = ''2024-08-16T10:00:00.000Z'', response1 = ApiText (Some ''Yes''),
       response2 = ApiText (Some (fence @ [CHR 0x0A] @ ''{}'' @ [CHR 0x0A] @ fence))\<rparr>) = []"
  by code_simp

text \<open>
  C7, amended. For every generator payload that is a JSON object wrapped in an opening
  fence with the tag \<^verbatim>\<open>json\<close> (in any letter case) and a closing fence, with white space
  allowed around the fences, the wrapper is stripped before parsing: the parser receives
  exactly the object's text, and the accepted item is appended as a note in which every
  required field is populated.
\<close>

theorem json_fenced_payload_parsed:
  assumes ws: "list_all is_whitespace wa" "list_all is_whitespace wb" "list_all is_whitespace wc"
      "list_all is_whitespace wd"
    and tag: "ci_eq tag ''json''"
    and body: "body \<noteq> []" "hd body = CHR ''{''" "last body = CHR ''}''"
    and parse: "P body = Some (JObj obj)"
    and content: "fileContent item = Some content" "\<not> IsNullOrWhiteSpace content"
    and accepted: "Classification_Gate (extract_text (response1 item))"
    and payload: "response2 item = ApiText (Some (wa @ fence @ tag @ wb @ body @ wc @ fence @ wd))"
  shows "clean_fences (Trim (wa @ fence @ tag @ wb @ body @ wc @ fence @ wd)) = body \<and>
         allNotes (process_file P st item) =
           allNotes st @ [JObj (build_note item content (nextId st) (currentOrder st) obj)] \<and>
         populated (build_note item content (nextId st) (currentOrder st) obj)"
proof -
  let ?t = "fence @ tag @ wb @ body @ wc @ fence"
  have e: "extract_text (response2 item) = Some ?t"
    using payload clean_fences_wrapped(1) [OF ws tag body] by (simp add: extract_text_def)
  have nb: "\<not> IsNullOrWhiteSpace ?t"
    by (simp add: IsNullOrWhiteSpace_def fence_def is_whitespace_def numeral_3_eq_3)
  have c: "clean_fences ?t = body" by (rule clean_fences_wrapped(2) [OF ws tag body])
  have cl: "clean_fences (Trim (wa @ fence @ tag @ wb @ body @ wc @ fence @ wd)) = body"
    using clean_fences_wrapped(1) [OF ws tag body] c by simp
  have g: "generate_note P s item content =
           store_payload (s\<lparr>apiCalls := apiCalls s + 1\<rparr>) item content (JObj obj)"
    for s
  proof -
    have r2: "response2 item \<noteq> ApiThrows" "response2 item \<noteq> ApiNull"
      using payload by simp_all
    show ?thesis by (simp add: generate_note_def Let_def e nb c parse r2)
  qed
  have r1: "response1 item \<noteq> ApiThrows" "response1 item \<noteq> ApiNull"
    using accepted by (auto simp: extract_text_def Classification_Gate_def)
  have "allNotes (process_file P st item) =
           allNotes st @ [JObj (build_note item content (nextId st) (currentOrder st) obj)]"
    by (simp add: process_file_def Let_def content r1 accepted g store_payload_def append_notes_def)
  then show ?thesis using cl by (simp add: populated_build_note)
qed

theorem json_fenced_payload_parsed_witness:
  "allNotes (process_file (\<lambda>s. if s = ''{}'' then Some (JObj []) else None) (initial_state [])
      \<lparr>fileName = ''milk.txt'', fileBaseName = ''milk'', fileContent = Some ''Buy milk'',
       fileDate = ''2024-08-16T10:00:00.000Z'', response1 = ApiText (Some ''Yes''),
       response2 = ApiText (Some (fence @ ''JSON'' @ [CHR 0x0A] @ ''{}'' @ [CHR 0x0A] @ fence))\<rparr>)
   = [JObj [(''id'', JNum 1), (''createdAt'', JStr ''2024-08-16T10:00:00.000Z''),
       (''text'', JStr ''Buy milk''), (''title'', JStr ''milk''), (''status'', JStr ''Open''),
       (''priority'', JStr ''Medium''), (''isPrivate'', JBool False), (''order'', JNum 0)]]"
proof -
  let ?P = "\<lambda>s. if s = ''{}'' then Some (JObj []) else None"
  let ?f = "\<lparr>fileName = ''milk.txt'', fileBaseName = ''milk'', fileContent = Some ''Buy milk'',
       fileDate = ''2024-08-16T10:00:00.000Z'', response1 = ApiText (Some ''Yes''),
       response2 = ApiText (Some (fence @ ''JSON'' @ [CHR 0x0A] @ ''{}'' @ [CHR 0x0A] @ fence))\<rparr>"
  have w: "list_all is_whitespace []" "list_all is_whitespace [CHR 0x0A]"
    by (simp_all add: is_whitespace_def)
  have t: "ci_eq ''JSON'' ''json''" by (simp add: ci_eq_def to_lower_def)
  have b: "''{}'' \<noteq> []" "hd ''{}'' = CHR ''{''" "last ''{}'' = CHR ''}''" by simp_all
  have p: "?P ''{}'' = Some (JObj [])" by simp
  have c: "fileContent ?f = Some ''Buy milk''" "\<not> IsNullOrWhiteSpace ''Buy milk''"
    by (simp_all add: IsNullOrWhiteSpace_def is_whitespace_def)
  have a: "Classification_Gate (extract_text (response1 ?f))" by code_simp
  have r: "response2 ?f = ApiText (Some ([] @ fence @ ''JSON'' @ [CHR 0x0A] @ ''{}'' @ [CHR 0x0A] @ fence @ []))"
    by simp
  have i: "allNotes (initial_state []) = []" "nextId (initial_state []) = 1"
    "currentOrder (initial_state []) = 0"
    by (simp_all add: initial_state_def compute_nextId_def)
  have n: "build_note ?f ''Buy milk'' 1 0 [] =
     [(''id'', JNum 1), (''createdAt'', JStr ''2024-08-16T10:00:00.000Z''),
       (''text'', JStr ''Buy milk''), (''title'', JStr ''milk''), (''status'', JStr ''Open''),
       (''priority'', JStr ''Medium''), (''isPrivate'', JBool False), (''order'', JNum 0)]"
    by code_simp
  from json_fenced_payload_parsed [where P = ?P and body = "''{}''" and obj = "[]" and item = ?f
      and content = "''Buy milk''" and wa = "[]" and wb = "[CHR 0x0A]" and wc = "[CHR 0x0A]"
      and wd = "[]" and tag = "''JSON''" and st = "initial_state []",
      OF w(1) w(2) w(2) w(1) t b p c a r]
  show ?thesis unfolding i n by simp
qed


subsection \<open>The persisted collection\<close>




end
